theory Spec2Isabelle
  imports Complex_Main
begin

section \<open>Errors\<close>

text \<open>
  Every \<^verbatim>\<open>raise\<close> of \<^verbatim>\<open>data_extraction_processing.py\<close> that the
  properties below talk about is a value of \<open>error\<close>. The source raises Python's
  \<^verbatim>\<open>ValueError\<close> at four sites and \<^verbatim>\<open>RuntimeError\<close> at two; the
  constructors keep the sites apart and carry what the message is built from.
  \<open>TypeError\<close>, \<open>IndexError\<close>, \<open>KeyError\<close> and \<open>EmptySequence\<close> are the errors
  the interpreter raises by itself (an unsupported comparison, \<^verbatim>\<open>index[0]\<close> on an
  empty index, a missing dictionary key, \<^verbatim>\<open>max([])\<close>).
\<close>

datatype validation_reason =
    BadDate
  | BadPeriodToken
  | DurationNotPositiveInt
  | DurationExceedsHistory

datatype error =
    ValidationError validation_reason
  | DataUnavailable "string list"
  | ComputationError string
  | TypeError
  | IndexError
  | KeyError
  | EmptySequence

section \<open>Calendar dates\<close>

text \<open>
  The row labels of a returns table are timestamps at midnight; the model keeps their
  calendar fields. Two timestamps are compared, and subtracted, through their day
  number, which is computed as Python's \<^verbatim>\<open>datetime\<close> does
  (\<^verbatim>\<open>_ymd2ord\<close>). The representable range of a timestamp is not modelled:
  years are unbounded integers.
\<close>

record timestamp =
  year :: int
  month :: int
  day :: int

definition is_leap :: "int \<Rightarrow> bool" where
  "is_leap y \<longleftrightarrow> y mod 4 = 0 \<and> (y mod 100 \<noteq> 0 \<or> y mod 400 = 0)"

definition days_in_month :: "int \<Rightarrow> int \<Rightarrow> int" where
  "days_in_month y m =
     (if m = 2 then (if is_leap y then 29 else 28)
      else if m = 4 \<or> m = 6 \<or> m = 9 \<or> m = 11 then 30
      else 31)"

definition days_before_year :: "int \<Rightarrow> int" where
  "days_before_year y =
     (y - 1) * 365 + (y - 1) div 4 - (y - 1) div 100 + (y - 1) div 400"

definition days_before_month :: "int \<Rightarrow> int \<Rightarrow> int" where
  "days_before_month y m =
     [0, 31, 59, 90, 120, 151, 181, 212, 243, 273, 304, 334] ! nat (m - 1)
       + (if m > 2 \<and> is_leap y then 1 else 0)"

definition toordinal :: "timestamp \<Rightarrow> int" where
  "toordinal t = days_before_year (year t) + days_before_month (year t) (month t) + day t"

definition ts_less :: "timestamp \<Rightarrow> timestamp \<Rightarrow> bool" where
  "ts_less a b \<longleftrightarrow> toordinal a < toordinal b"

definition ts_le :: "timestamp \<Rightarrow> timestamp \<Rightarrow> bool" where
  "ts_le a b \<longleftrightarrow> toordinal a \<le> toordinal b"

text \<open>\<^verbatim>\<open>abs(x - end_date)\<close>: the length of the time difference, in days.\<close>

definition abs_diff :: "timestamp \<Rightarrow> timestamp \<Rightarrow> int" where
  "abs_diff x e = \<bar>toordinal x - toordinal e\<bar>"

text \<open>
  \<^verbatim>\<open>t + relativedelta(months=n)\<close>. The constructor normalises \<open>n\<close> months into
  whole years and a rest of at most eleven months, both with the sign of \<open>n\<close>; the
  addition moves year and month and clips the day to the length of the new month.
\<close>

definition add_months :: "timestamp \<Rightarrow> int \<Rightarrow> timestamp" where
  "add_months t n =
     (let s = sgn n;
          years = (\<bar>n\<bar> div 12) * s;
          months = (\<bar>n\<bar> mod 12) * s;
          y0 = year t + years;
          m0 = month t + months;
          y1 = (if m0 > 12 then y0 + 1 else if m0 < 1 then y0 - 1 else y0);
          m1 = (if m0 > 12 then m0 - 12 else if m0 < 1 then m0 + 12 else m0)
      in \<lparr>year = y1, month = m1, day = min (days_in_month y1 m1) (day t)\<rparr>)"

section \<open>Tables of floating-point cells\<close>

text \<open>
  A cell of a table is a float: a finite value, an infinity, or NaN (the marker of a
  missing value). Finite values are real numbers; rounding is not modelled.
\<close>

datatype fval = NaN | PInf | NInf | Fin real

record frame =
  columns :: "string list"
  rows :: "(timestamp \<times> fval list) list"

definition index :: "frame \<Rightarrow> timestamp list" where
  "index f = map fst (rows f)"

definition column_cells :: "frame \<Rightarrow> nat \<Rightarrow> fval list" where
  "column_cells f j = map (\<lambda>r. snd r ! j) (rows f)"

definition shape :: "frame \<Rightarrow> nat \<times> nat" where
  "shape f = (length (rows f), length (columns f))"

section \<open>Risk metrics\<close>

text \<open>
  The two reductions of \<^verbatim>\<open>construct_key_metrics\<close>, \<^verbatim>\<open>returns.cov()\<close> and
  \<^verbatim>\<open>returns.std()\<close>, are library calls that may raise; the function takes them as
  parameters that return \<open>None\<close> when they raise. The bare \<^verbatim>\<open>except\<close> turns
  every such failure into a \<^verbatim>\<open>RuntimeError\<close>, whose message is the string literal
  of the source, character for character.
\<close>

record metrics =
  returns :: frame
  volatilities :: "(string \<times> fval) list"
  covariance :: "fval list list"

definition cov_error_message :: string where
  "cov_error_message =
     ''Error calculating covariance matrix. Returns matrix of shape: {returns.shape}''"

definition std_error_message :: string where
  "std_error_message =
     ''Error calculating volatilities. Returns matrix of shape: {returns.shape}''"

definition construct_key_metrics ::
  "(frame \<Rightarrow> fval list list option) \<Rightarrow> (frame \<Rightarrow> (string \<times> fval) list option)
     \<Rightarrow> frame \<Rightarrow> error + metrics" where
  "construct_key_metrics cov std rs =
     (case cov rs of
        None \<Rightarrow> Inl (ComputationError cov_error_message)
      | Some covariance_matrix \<Rightarrow>
          (case std rs of
             None \<Rightarrow> Inl (ComputationError std_error_message)
           | Some vols \<Rightarrow>
               Inr \<lparr>returns = rs, volatilities = vols, covariance = covariance_matrix\<rparr>))"

subsection \<open>The reductions on a numeric table\<close>

text \<open>
  On a table of floats the two reductions do not raise. Both skip missing cells
  (\<^verbatim>\<open>skipna\<close>), divide by the number of observations less one, and give NaN when
  fewer than two observations are left or an infinity takes part.
\<close>

definition finite_vals :: "fval list \<Rightarrow> real list" where
  "finite_vals cs = concat (map (\<lambda>c. case c of Fin x \<Rightarrow> [x] | _ \<Rightarrow> []) cs)"

definition has_inf :: "fval list \<Rightarrow> bool" where
  "has_inf cs \<longleftrightarrow> PInf \<in> set cs \<or> NInf \<in> set cs"

definition mean :: "real list \<Rightarrow> real" where
  "mean xs = sum_list xs / real (length xs)"

definition sample_std :: "real list \<Rightarrow> real" where
  "sample_std xs = sqrt (sum_list (map (\<lambda>x. (x - mean xs)\<^sup>2) xs) / real (length xs - 1))"

definition std_col :: "fval list \<Rightarrow> fval" where
  "std_col cs =
     (if has_inf cs then NaN
      else let xs = finite_vals cs
           in if length xs \<le> 1 then NaN else Fin (sample_std xs))"

definition cov_cols :: "fval list \<Rightarrow> fval list \<Rightarrow> fval" where
  "cov_cols a b =
     (let ps = filter (\<lambda>(x, y). x \<noteq> NaN \<and> y \<noteq> NaN) (zip a b);
          xs = finite_vals (map fst ps);
          ys = finite_vals (map snd ps);
          n = length ps
      in if has_inf (map fst ps) \<or> has_inf (map snd ps) \<or> n \<le> 1 then NaN
         else Fin (sum_list (map2 (\<lambda>x y. (x - mean xs) * (y - mean ys)) xs ys) / real (n - 1)))"

definition pandas_std :: "frame \<Rightarrow> (string \<times> fval) list option" where
  "pandas_std f =
     Some (map (\<lambda>j. (columns f ! j, std_col (column_cells f j))) [0..<length (columns f)])"

definition pandas_cov :: "frame \<Rightarrow> fval list list option" where
  "pandas_cov f =
     Some (map (\<lambda>i. map (\<lambda>j. cov_cols (column_cells f i) (column_cells f j))
                       [0..<length (columns f)])
               [0..<length (columns f)])"

text \<open>A table all of whose cells are finite numbers, one for every column.\<close>

fun is_fin :: "fval \<Rightarrow> bool" where
  "is_fin (Fin x) = True"
| "is_fin _ = False"

definition numeric_table :: "frame \<Rightarrow> bool" where
  "numeric_table f \<longleftrightarrow>
     (\<forall>r \<in> set (rows f). length (snd r) = length (columns f) \<and> list_all is_fin (snd r))"

section \<open>Backtest window\<close>

text \<open>
  \<^verbatim>\<open>duration_months\<close> is whatever the caller passes. The first check evaluates
  \<^verbatim>\<open>duration_months <= 0\<close> before it looks at the type: on a string or
  \<^verbatim>\<open>None\<close> that comparison raises \<^verbatim>\<open>TypeError\<close>.
\<close>

datatype py_value = PyInt int | PyBool bool | PyFloat fval | PyStr string | PyNone

fun le_zero :: "py_value \<Rightarrow> error + bool" where
  "le_zero (PyInt n) = Inr (n \<le> 0)"
| "le_zero (PyBool b) = Inr (\<not> b)"
| "le_zero (PyFloat NaN) = Inr False"
| "le_zero (PyFloat PInf) = Inr False"
| "le_zero (PyFloat NInf) = Inr True"
| "le_zero (PyFloat (Fin x)) = Inr (x \<le> 0)"
| "le_zero (PyStr s) = Inl TypeError"
| "le_zero PyNone = Inl TypeError"

fun type_is_int :: "py_value \<Rightarrow> bool" where
  "type_is_int (PyInt n) = True"
| "type_is_int _ = False"

fun the_int :: "py_value \<Rightarrow> int" where
  "the_int (PyInt n) = n"
| "the_int _ = 0"

text \<open>
  \<^verbatim>\<open>min(full_dates, key=...)\<close>: the first element, in iteration order, whose key
  no other element undercuts. On an empty list \<^verbatim>\<open>min\<close> raises.
\<close>

fun min_from :: "('a \<Rightarrow> int) \<Rightarrow> 'a \<Rightarrow> 'a list \<Rightarrow> 'a" where
  "min_from key best [] = best"
| "min_from key best (x # xs) =
     (if key x < key best then min_from key x xs else min_from key best xs)"

definition py_min_key :: "('a \<Rightarrow> int) \<Rightarrow> 'a list \<Rightarrow> error + 'a" where
  "py_min_key key xs = (case xs of [] \<Rightarrow> Inl EmptySequence | x # rest \<Rightarrow> Inr (min_from key x rest))"

text \<open>
  \<^verbatim>\<open>returns.loc[start_date:closest_date]\<close>: label slicing on an index in ascending
  order keeps the rows whose label lies between the two bounds, both included.
\<close>

definition loc_slice :: "frame \<Rightarrow> timestamp \<Rightarrow> timestamp \<Rightarrow> frame" where
  "loc_slice f lo hi = f\<lparr>rows := filter (\<lambda>r. ts_le lo (fst r) \<and> ts_le (fst r) hi) (rows f)\<rparr>"

definition backtest_resample ::
  "(frame \<Rightarrow> fval list list option) \<Rightarrow> (frame \<Rightarrow> (string \<times> fval) list option)
     \<Rightarrow> frame \<Rightarrow> py_value \<Rightarrow> error + metrics" where
  "backtest_resample cov std rs duration_months =
     (case le_zero duration_months of
        Inl e \<Rightarrow> Inl e
      | Inr nonpos \<Rightarrow>
          if nonpos \<or> \<not> type_is_int duration_months
          then Inl (ValidationError DurationNotPositiveInt)
          else
            (case index rs of
               [] \<Rightarrow> Inl IndexError
             | start_date # _ \<Rightarrow>
                 let full_dates = index rs;
                     end_date = add_months start_date (the_int duration_months)
                 in if ts_less (last full_dates) end_date
                       \<and> the_int duration_months \<noteq> int (length full_dates)
                    then Inl (ValidationError DurationExceedsHistory)
                    else
                      (case py_min_key (\<lambda>x. abs_diff x end_date) full_dates of
                         Inl e \<Rightarrow> Inl e
                       | Inr closest_date \<Rightarrow>
                           construct_key_metrics cov std
                             (loc_slice rs start_date closest_date))))"

section \<open>Configuration values\<close>

text \<open>
  \<^verbatim>\<open>json.load\<close> gives the \<^verbatim>\<open>dataParameters\<close> object as a dictionary from
  strings to JSON values, here the list of its items in iteration order (the keys of a
  dictionary are distinct).
\<close>

datatype json =
    JString string
  | JNumber int
  | JBool bool
  | JNull
  | JArray "json list"
  | JObject "(string \<times> json) list"

subsection \<open>The date format\<close>

text \<open>
  \<^verbatim>\<open>datetime.strptime(s, "%Y-%m-%d")\<close> of the standard library: \<open>s\<close> must be four
  digits, a hyphen, a month field, a hyphen and a day field, with nothing left over; the
  month and day fields may drop the leading zero, and the day field may have a space in
  its place. The fields must then name a date that exists. \<open>None\<close> stands for the
  \<^verbatim>\<open>ValueError\<close> the library raises otherwise.
\<close>

definition is_digit :: "char \<Rightarrow> bool" where
  "is_digit c \<longleftrightarrow> c \<in> set ''0123456789''"

definition is_nonzero_digit :: "char \<Rightarrow> bool" where
  "is_nonzero_digit c \<longleftrightarrow> is_digit c \<and> c \<noteq> CHR ''0''"

text \<open>The month field \<^verbatim>\<open>1[0-2]|0[1-9]|[1-9]\<close>.\<close>

fun month_field :: "string \<Rightarrow> bool" where
  "month_field [a, b] \<longleftrightarrow>
     (a = CHR ''1'' \<and> b \<in> set ''012'') \<or> (a = CHR ''0'' \<and> is_nonzero_digit b)"
| "month_field [a] \<longleftrightarrow> is_nonzero_digit a"
| "month_field _ \<longleftrightarrow> False"

text \<open>The day field \<^verbatim>\<open>3[0-1]|[1-2]\d|0[1-9]|[1-9]| [1-9]\<close>.\<close>

fun day_field :: "string \<Rightarrow> bool" where
  "day_field [a, b] \<longleftrightarrow>
     (a = CHR ''3'' \<and> b \<in> set ''01'') \<or> (a \<in> set ''12'' \<and> is_digit b)
     \<or> (a = CHR ''0'' \<and> is_nonzero_digit b) \<or> (a = CHR '' '' \<and> is_nonzero_digit b)"
| "day_field [a] \<longleftrightarrow> is_nonzero_digit a"
| "day_field _ \<longleftrightarrow> False"

definition field_value :: "string \<Rightarrow> int" where
  "field_value s =
     foldl (\<lambda>a c. 10 * a + (int (of_char c) - 48)) 0 (filter is_digit s)"

definition strptime_ymd :: "string \<Rightarrow> timestamp option" where
  "strptime_ymd s =
     (let ys = take 4 s;
          rest = drop 5 s;
          ms = takeWhile (\<lambda>c. c \<noteq> CHR ''-'') rest;
          ds = drop (Suc (length ms)) rest;
          y = field_value ys; m = field_value ms; d = field_value ds
      in if length ys = 4 \<and> list_all is_digit ys
            \<and> take 1 (drop 4 s) = ''-''
            \<and> month_field ms
            \<and> take 1 (drop (length ms) rest) = ''-''
            \<and> day_field ds
            \<and> 1 \<le> y \<and> d \<le> days_in_month y m
         then Some \<lparr>year = y, month = m, day = d\<rparr>
         else None)"

subsection \<open>Steps 5 and 6 of \<^verbatim>\<open>retrieve_historical_returns\<close>\<close>

definition accepted_interval_values :: "string list" where
  "accepted_interval_values =
     [''1d'', ''5d'', ''1mo'', ''3mo'', ''6mo'', ''1y'', ''2y'', ''5y'', ''10y'']"

fun in_accepted :: "json \<Rightarrow> bool" where
  "in_accepted (JString s) \<longleftrightarrow> s \<in> set accepted_interval_values"
| "in_accepted _ \<longleftrightarrow> False"

fun check_intervals :: "(string \<times> json) list \<Rightarrow> error + unit" where
  "check_intervals [] = Inr ()"
| "check_intervals ((key, v) # items) =
     (if key \<noteq> ''sample_period_end'' \<and> \<not> in_accepted v
      then Inl (ValidationError BadPeriodToken)
      else check_intervals items)"

definition validate_data_params :: "(string \<times> json) list \<Rightarrow> error + unit" where
  "validate_data_params data_params =
     (case map_of data_params ''sample_period_end'' of
        None \<Rightarrow> Inl KeyError
      | Some (JString s) \<Rightarrow>
          (case strptime_ymd s of
             None \<Rightarrow> Inl (ValidationError BadDate)
           | Some _ \<Rightarrow> check_intervals data_params)
      | Some _ \<Rightarrow> Inl TypeError)"

section \<open>Availability of history\<close>

text \<open>
  Step 7 of \<^verbatim>\<open>retrieve_historical_returns\<close>. The download of one ticker's history
  is outside the program: \<open>fetch_start_year\<close> gives the year of the earliest
  observation it returns. \<open>start_year\<close> is \<^verbatim>\<open>int(sample_period_start[:4])\<close>.
\<close>

definition bad_etfs :: "string list \<Rightarrow> int list \<Rightarrow> int \<Rightarrow> string list" where
  "bad_etfs tickers etf_start_years start_year =
     fold (\<lambda>i acc. if etf_start_years ! i \<noteq> start_year then acc @ [tickers ! i] else acc)
       [0..<length etf_start_years] []"

definition check_start_years :: "(string \<Rightarrow> int) \<Rightarrow> string list \<Rightarrow> int \<Rightarrow> error + unit" where
  "check_start_years fetch_start_year tickers start_year =
     (let etf_start_years = map fetch_start_year tickers
      in case etf_start_years of
           [] \<Rightarrow> Inl EmptySequence
         | y # ys \<Rightarrow>
             if fold max ys y \<noteq> fold min ys y \<and> fold max ys y \<noteq> start_year
             then Inl (DataUnavailable (bad_etfs tickers etf_start_years start_year))
             else Inr ())"

section \<open>From prices to returns\<close>

text \<open>
  Steps 9 and 10: \<^verbatim>\<open>data.resample('ME').last().pct_change()\<close>, then
  \<^verbatim>\<open>fillna(0)\<close>. The price table \<open>data\<close> comes from the download.
\<close>

definition month_index :: "timestamp \<Rightarrow> int" where
  "month_index t = year t * 12 + (month t - 1)"




text \<open>Float division and the subtraction of one, with their infinities and NaN.\<close>

fun fdiv :: "fval \<Rightarrow> fval \<Rightarrow> fval" where
  "fdiv NaN _ = NaN"
| "fdiv _ NaN = NaN"
| "fdiv (Fin a) (Fin b) =
     (if b \<noteq> 0 then Fin (a / b)
      else if a > 0 then PInf else if a < 0 then NInf else NaN)"
| "fdiv (Fin a) _ = Fin 0"
| "fdiv PInf (Fin b) = (if b < 0 then NInf else PInf)"
| "fdiv NInf (Fin b) = (if b < 0 then PInf else NInf)"
| "fdiv _ _ = NaN"







section \<open>Series of month ends\<close>

text \<open>
  The labels that \<^verbatim>\<open>resample('ME')\<close> produces: the last days of consecutive
  calendar months. \<open>month_start\<close> and \<open>first_day\<close> number the day before the first
  day of a month; they serve the proofs only.
\<close>

definition is_month_end :: "timestamp \<Rightarrow> bool" where
  "is_month_end t \<longleftrightarrow>
     1 \<le> month t \<and> month t \<le> 12 \<and> day t = days_in_month (year t) (month t)"

fun consecutive_month_ends :: "timestamp list \<Rightarrow> bool" where
  "consecutive_month_ends [] \<longleftrightarrow> True"
| "consecutive_month_ends [t] \<longleftrightarrow> is_month_end t"
| "consecutive_month_ends (t # u # ts) \<longleftrightarrow>
     is_month_end t \<and> month_index u = month_index t + 1 \<and> consecutive_month_ends (u # ts)"

definition month_start :: "int \<Rightarrow> int \<Rightarrow> int" where
  "month_start y m = days_before_year y + days_before_month y m"

definition first_day :: "int \<Rightarrow> int" where
  "first_day k = month_start (k div 12) (k mod 12 + 1)"

section \<open>Sample inputs\<close>

definition no_rows :: frame where
  "no_rows = \<lparr>columns = [''A''], rows = []\<rparr>"

definition one_row :: frame where
  "one_row = \<lparr>columns = [''A''], rows = [(\<lparr>year = 2020, month = 1, day = 31\<rparr>, [Fin 0])]\<rparr>"

definition two_months :: frame where
  "two_months =
     \<lparr>columns = [''A''],
      rows = [(\<lparr>year = 2020, month = 1, day = 31\<rparr>, [Fin 0]),
              (\<lparr>year = 2020, month = 2, day = 29\<rparr>, [Fin (1 / 10)])]\<rparr>"

definition wide_row :: frame where
  "wide_row =
     \<lparr>columns = [''A'', ''B''],
      rows = [(\<lparr>year = 2020, month = 1, day = 31\<rparr>, [Fin 0, Fin 0])]\<rparr>"

definition three_months :: frame where
  "three_months =
     \<lparr>columns = [''A'', ''B''],
      rows = [(\<lparr>year = 2019, month = 12, day = 31\<rparr>, [Fin 0, Fin 0]),
              (\<lparr>year = 2020, month = 1, day = 31\<rparr>, [Fin (1 / 10), Fin (- 1 / 20)]),
              (\<lparr>year = 2020, month = 2, day = 29\<rparr>, [Fin (1 / 5), Fin (1 / 4)])]\<rparr>"





definition late_starter :: "string \<Rightarrow> int" where
  "late_starter t = (if t = ''A'' then 2019 else 2020)"

section \<open>Properties of the backtest window\<close>

lemma py_min_key_nonempty: "xs \<noteq> [] \<Longrightarrow> \<exists>x. py_min_key key xs = Inr x"
  by (cases xs) (simp_all add: py_min_key_def)

lemma construct_key_metrics_errors:
  "construct_key_metrics cov std rs = Inl e \<Longrightarrow>
     e = ComputationError cov_error_message \<or> e = ComputationError std_error_message"
  by (auto simp: construct_key_metrics_def split: option.splits)

lemmas calendar_defs =
  index_def ts_less_def ts_le_def abs_diff_def toordinal_def add_months_def
  days_before_year_def days_before_month_def days_in_month_def is_leap_def

text \<open>
  C10. On a table without rows and a positive integer duration, the resampler stops at
  \<^verbatim>\<open>returns.index[0]\<close> with \<^verbatim>\<open>IndexError\<close>, which is none of the
  validation errors. On a table with at least one row it never raises
  \<^verbatim>\<open>IndexError\<close>, whatever the duration: the reads of the first and of the last
  label are in range.
\<close>

theorem backtest_resample_index_bounds:
  "(rows rs = [] \<and> 0 < n \<longrightarrow> backtest_resample cov std rs (PyInt n) = Inl IndexError)
   \<and> (rows rs \<noteq> [] \<longrightarrow> backtest_resample cov std rs d \<noteq> Inl IndexError)"
proof (intro conjI impI)
  assume "rows rs = [] \<and> 0 < n"
  then show "backtest_resample cov std rs (PyInt n) = Inl IndexError"
    by (simp add: backtest_resample_def index_def)
next
  assume ne: "rows rs \<noteq> []"
  then obtain s ds where ix: "index rs = s # ds"
    by (cases "rows rs") (auto simp: index_def)
  obtain c where c: "py_min_key (\<lambda>x. abs_diff x (add_months s (the_int d))) (s # ds) = Inr c"
    using py_min_key_nonempty [of "s # ds"] by blast
  show "backtest_resample cov std rs d \<noteq> Inl IndexError"
  proof
    assume a: "backtest_resample cov std rs d = Inl IndexError"
    show False
    proof (cases "le_zero d")
      case (Inl e)
      then have "e = TypeError" by (cases d rule: le_zero.cases) auto
      with Inl a show False by (simp add: backtest_resample_def)
    next
      case (Inr b)
      with a ix c show False
        by (auto simp: backtest_resample_def Let_def split: if_splits
              dest: construct_key_metrics_errors)
    qed
  qed
qed

theorem backtest_resample_index_bounds_witness:
  "backtest_resample pandas_cov pandas_std no_rows (PyInt 3) = Inl IndexError
   \<and> backtest_resample pandas_cov pandas_std two_months (PyInt 2) \<noteq> Inl IndexError"
  using backtest_resample_index_bounds [of no_rows 3 pandas_cov pandas_std "PyInt 3"]
    backtest_resample_index_bounds [of two_months 3 pandas_cov pandas_std "PyInt 2"]
  by (simp add: two_months_def no_rows_def)



text \<open>
  C7. The first check of the resampler is meant to reject every duration that is not a
  positive integer with a validation error. It does so for integers, booleans and
  floats. On a string the comparison \<^verbatim>\<open>duration_months <= 0\<close> is evaluated first
  and raises \<^verbatim>\<open>TypeError\<close>, so the validation error is never reached.
\<close>

theorem duration_string_type_error:
  "backtest_resample pandas_cov pandas_std two_months (PyStr ''5'') = Inl TypeError"
  by (simp add: backtest_resample_def)

lemma duration_check_numeric:
  "backtest_resample cov std rs (PyInt 0) = Inl (ValidationError DurationNotPositiveInt)"
  "backtest_resample cov std rs (PyInt (- 3)) = Inl (ValidationError DurationNotPositiveInt)"
  "backtest_resample cov std rs (PyBool b) = Inl (ValidationError DurationNotPositiveInt)"
  by (simp_all add: backtest_resample_def)

lemma duration_check_float:
  "backtest_resample cov std rs (PyFloat x) = Inl (ValidationError DurationNotPositiveInt)"
  by (cases x) (simp_all add: backtest_resample_def)

lemma duration_check_positive:
  assumes "0 < n"
  shows "backtest_resample cov std rs (PyInt n) \<noteq> Inl (ValidationError DurationNotPositiveInt)"
proof (cases "index rs")
  case Nil
  with assms show ?thesis by (simp add: backtest_resample_def)
next
  case (Cons s ds)
  obtain c where "py_min_key (\<lambda>x. abs_diff x (add_months s n)) (s # ds) = Inr c"
    using py_min_key_nonempty [of "s # ds"] by blast
  with assms Cons show ?thesis
    by (auto simp: backtest_resample_def Let_def dest: construct_key_metrics_errors)
qed

subsection \<open>The nearest date\<close>

lemma min_from_le:
  "key (min_from key b xs) \<le> key b \<and> (\<forall>x \<in> set xs. key (min_from key b xs) \<le> key x)"
proof (induction xs arbitrary: b)
  case Nil
  then show ?case by simp
next
  case (Cons x xs)
  show ?case
    using Cons.IH [of x] Cons.IH [of b] by (auto split: if_splits)
qed

lemma min_from_first:
  "min_from key b xs = b
   \<or> (\<exists>ys zs. xs = ys @ min_from key b xs # zs
         \<and> (\<forall>y \<in> set ys. key (min_from key b xs) < key y)
         \<and> key (min_from key b xs) < key b)"
proof (induction xs arbitrary: b)
  case Nil
  then show ?case by simp
next
  case (Cons x xs)
  show ?case
  proof (cases "key x < key b")
    case True
    then have r: "min_from key b (x # xs) = min_from key x xs" by simp
    from Cons.IH [of x] show ?thesis
    proof
      assume "min_from key x xs = x"
      with True r have "x # xs = [] @ min_from key b (x # xs) # xs
          \<and> key (min_from key b (x # xs)) < key b" by simp
      then show ?thesis by fastforce
    next
      assume "\<exists>ys zs. xs = ys @ min_from key x xs # zs
         \<and> (\<forall>y \<in> set ys. key (min_from key x xs) < key y)
         \<and> key (min_from key x xs) < key x"
      then obtain ys zs where xs: "xs = ys @ min_from key x xs # zs"
        and ys: "\<forall>y \<in> set ys. key (min_from key x xs) < key y"
        and lt: "key (min_from key x xs) < key x" by blast
      have "x # xs = (x # ys) @ min_from key b (x # xs) # zs"
        using xs r by simp
      moreover have "\<forall>y \<in> set (x # ys). key (min_from key b (x # xs)) < key y"
        using ys lt r by simp
      moreover have "key (min_from key b (x # xs)) < key b"
        using lt True r by simp
      ultimately show ?thesis by blast
    qed
  next
    case False
    then have r: "min_from key b (x # xs) = min_from key b xs" by simp
    from Cons.IH [of b] show ?thesis
    proof
      assume "min_from key b xs = b"
      with r show ?thesis by simp
    next
      assume "\<exists>ys zs. xs = ys @ min_from key b xs # zs
         \<and> (\<forall>y \<in> set ys. key (min_from key b xs) < key y)
         \<and> key (min_from key b xs) < key b"
      then obtain ys zs where xs: "xs = ys @ min_from key b xs # zs"
        and ys: "\<forall>y \<in> set ys. key (min_from key b xs) < key y"
        and lt: "key (min_from key b xs) < key b" by blast
      have "x # xs = (x # ys) @ min_from key b (x # xs) # zs"
        using xs r by simp
      moreover have "\<forall>y \<in> set (x # ys). key (min_from key b (x # xs)) < key y"
        using ys lt r False by simp
      moreover have "key (min_from key b (x # xs)) < key b"
        using lt r by simp
      ultimately show ?thesis by blast
    qed
  qed
qed

lemma py_min_key_first:
  assumes "py_min_key key L = Inr r"
  shows "\<exists>ys zs. L = ys @ r # zs
           \<and> (\<forall>y \<in> set ys. key r < key y) \<and> (\<forall>z \<in> set zs. key r \<le> key z)"
proof (cases L)
  case Nil
  with assms show ?thesis by (simp add: py_min_key_def)
next
  case (Cons b xs)
  with assms have r: "r = min_from key b xs" by (simp add: py_min_key_def)
  have le: "key r \<le> key b" "\<forall>x \<in> set xs. key r \<le> key x"
    using min_from_le [of key b xs] r by simp_all
  from min_from_first [of key b xs] show ?thesis
  proof
    assume "min_from key b xs = b"
    with r Cons le have "L = [] @ r # xs \<and> (\<forall>z \<in> set xs. key r \<le> key z)" by simp
    then show ?thesis by fastforce
  next
    assume "\<exists>ys zs. xs = ys @ min_from key b xs # zs
         \<and> (\<forall>y \<in> set ys. key (min_from key b xs) < key y)
         \<and> key (min_from key b xs) < key b"
    then obtain ys zs where xs: "xs = ys @ r # zs"
      and ys: "\<forall>y \<in> set ys. key r < key y" and lt: "key r < key b"
      using r by blast
    have "L = (b # ys) @ r # zs" using Cons xs by simp
    moreover have "\<forall>y \<in> set (b # ys). key r < key y" using ys lt by simp
    moreover have "\<forall>z \<in> set zs. key r \<le> key z" using le(2) xs by simp
    ultimately show ?thesis by blast
  qed
qed

lemma slice_prefix:
  assumes R: "map fst R = ys @ r # zs"
    and sorted: "sorted_wrt ts_less (ys @ r # zs)"
  shows "filter (\<lambda>x. ts_le (hd (ys @ r # zs)) (fst x) \<and> ts_le (fst x) r) R
           = take (Suc (length ys)) R"
proof -
  from R obtain Ry rr Rz where split: "R = Ry @ rr # Rz"
    and Ry: "map fst Ry = ys" and rr: "fst rr = r" and Rz: "map fst Rz = zs"
    by (auto simp: map_eq_append_conv map_eq_Cons_conv)
  let ?P = "\<lambda>x. ts_le (hd (ys @ r # zs)) (fst x) \<and> ts_le (fst x) r"
  from sorted have ys_r: "\<forall>y \<in> set ys. ts_less y r"
    and r_zs: "\<forall>z \<in> set zs. ts_less r z"
    and s_ys: "sorted_wrt ts_less ys"
    by (auto simp: sorted_wrt_append)
  have hd_le: "ts_le (hd (ys @ r # zs)) d" if "d \<in> set (ys @ [r])" for d
  proof (cases ys)
    case Nil
    with that show ?thesis by (simp add: ts_le_def)
  next
    case (Cons y ys')
    with that s_ys ys_r show ?thesis
      by (auto simp: ts_le_def ts_less_def)
  qed
  have "\<forall>x \<in> set Ry. ?P x"
  proof
    fix x assume "x \<in> set Ry"
    then have "fst x \<in> set ys" using Ry by force
    then show "?P x" using hd_le [of "fst x"] ys_r by (auto simp: ts_le_def ts_less_def)
  qed
  then have f1: "filter ?P Ry = Ry" by simp
  have f2: "?P rr" using hd_le [of r] rr by (simp add: ts_le_def)
  have "\<forall>x \<in> set Rz. \<not> ?P x"
  proof
    fix x assume "x \<in> set Rz"
    then have "fst x \<in> set zs" using Rz by force
    then show "\<not> ?P x" using r_zs by (auto simp: ts_le_def ts_less_def)
  qed
  then have f3: "filter ?P Rz = []" by simp
  have "length Ry = length ys" using Ry by (metis length_map)
  then have "take (Suc (length ys)) R = Ry @ [rr]" by (simp add: split)
  moreover have "filter ?P R = Ry @ [rr]"
    unfolding split filter_append filter.simps f1 f3 using f2 by simp
  ultimately show ?thesis by simp
qed

text \<open>
  C3. On a table with at least one row, labels in strictly ascending order and a positive
  integer duration that passes the length check, the resampler picks a label at minimum
  distance from the nominal end date (first label plus \<open>n\<close> months): the first such
  label in iteration order, which is the earliest date among those at that distance. The
  rows from the first label through the picked one, both included, are the first \<open>i + 1\<close>
  rows, and the result is the engine's result on exactly these rows.
\<close>

theorem closest_date_selection:
  assumes ne: "rows rs \<noteq> []" and pos: "0 < n"
    and sorted: "sorted_wrt ts_less (index rs)"
    and pass: "\<not> (ts_less (last (index rs)) (add_months (hd (index rs)) n)
                  \<and> n \<noteq> int (length (rows rs)))"
  shows "\<exists>i < length (index rs).
           (\<forall>d \<in> set (index rs).
               abs_diff (index rs ! i) (add_months (hd (index rs)) n)
                 \<le> abs_diff d (add_months (hd (index rs)) n))
         \<and> (\<forall>j < i. abs_diff (index rs ! i) (add_months (hd (index rs)) n)
                       < abs_diff (index rs ! j) (add_months (hd (index rs)) n))
         \<and> (\<forall>d \<in> set (index rs).
               abs_diff d (add_months (hd (index rs)) n)
                 = abs_diff (index rs ! i) (add_months (hd (index rs)) n)
               \<longrightarrow> ts_le (index rs ! i) d)
         \<and> filter (\<lambda>r. ts_le (hd (index rs)) (fst r) \<and> ts_le (fst r) (index rs ! i)) (rows rs)
             = take (Suc i) (rows rs)
         \<and> backtest_resample cov std rs (PyInt n)
             = construct_key_metrics cov std (rs\<lparr>rows := take (Suc i) (rows rs)\<rparr>)"
proof -
  let ?L = "index rs"
  let ?e = "add_months (hd ?L) n"
  let ?key = "\<lambda>x. abs_diff x ?e"
  from ne obtain s ds where ix: "?L = s # ds"
    by (cases "rows rs") (auto simp: index_def)
  obtain c where c: "py_min_key ?key ?L = Inr c"
    using py_min_key_nonempty [of ?L] ix by auto
  from py_min_key_first [OF c] obtain ys zs where L: "?L = ys @ c # zs"
    and before: "\<forall>y \<in> set ys. ?key c < ?key y"
    and after: "\<forall>z \<in> set zs. ?key c \<le> ?key z" by blast
  let ?i = "length ys"
  have i: "?i < length ?L" and ci: "?L ! ?i = c" by (simp_all add: L)
  have s1: "\<forall>d \<in> set ?L. ?key c \<le> ?key d"
    using before after by (subst L) auto
  have s2: "\<forall>j < ?i. ?key c < ?key (?L ! j)"
    using before by (subst L) (simp add: nth_append)
  from sorted have c_zs: "\<forall>z \<in> set zs. ts_less c z"
    unfolding L by (auto simp: sorted_wrt_append)
  have s3: "\<forall>d \<in> set ?L. ?key d = ?key c \<longrightarrow> ts_le c d"
  proof (intro ballI impI)
    fix d assume d: "d \<in> set ?L" and eq: "?key d = ?key c"
    from d have "d \<in> set ys \<or> d = c \<or> d \<in> set zs" by (subst (asm) L) auto
    then show "ts_le c d"
      using before eq c_zs by (auto simp: ts_le_def ts_less_def)
  qed
  have hdL: "hd ?L = hd (ys @ c # zs)" using L by simp
  have s4: "filter (\<lambda>r. ts_le (hd ?L) (fst r) \<and> ts_le (fst r) c) (rows rs)
              = take (Suc ?i) (rows rs)"
    unfolding hdL
    by (rule slice_prefix) (use L sorted in \<open>simp_all add: index_def\<close>)
  have len: "length (rows rs) = length ?L" by (simp add: index_def)
  have hds: "hd ?L = s" using ix by simp
  have "backtest_resample cov std rs (PyInt n)
          = construct_key_metrics cov std (loc_slice rs s c)"
    using pos ix pass c len unfolding hds
    by (auto simp: backtest_resample_def Let_def)
  also have "loc_slice rs s c = rs\<lparr>rows := take (Suc ?i) (rows rs)\<rparr>"
    using s4 unfolding hds by (simp add: loc_slice_def)
  finally have s5: "backtest_resample cov std rs (PyInt n)
      = construct_key_metrics cov std (rs\<lparr>rows := take (Suc ?i) (rows rs)\<rparr>)" .
  show ?thesis
    using i s1 s2 s3 s4 s5 unfolding ci [symmetric] by blast
qed

lemma three_months_index:
  "index three_months =
     [\<lparr>year = 2019, month = 12, day = 31\<rparr>, \<lparr>year = 2020, month = 1, day = 31\<rparr>,
      \<lparr>year = 2020, month = 2, day = 29\<rparr>]"
  by (simp add: three_months_def index_def)


theorem closest_date_selection_witness:
  "rows three_months \<noteq> [] \<and> (0::int) < 1
   \<and> sorted_wrt ts_less (index three_months)
   \<and> \<not> (ts_less (last (index three_months)) (add_months (hd (index three_months)) 1)
          \<and> 1 \<noteq> int (length (rows three_months)))
   \<and> backtest_resample pandas_cov pandas_std three_months (PyInt 1)
       = construct_key_metrics pandas_cov pandas_std
           (three_months\<lparr>rows := take 2 (rows three_months)\<rparr>)
   \<and> (\<exists>i < length (index three_months).
         backtest_resample pandas_cov pandas_std three_months (PyInt 1)
           = construct_key_metrics pandas_cov pandas_std
               (three_months\<lparr>rows := take (Suc i) (rows three_months)\<rparr>))"
proof -
  have a: "rows three_months \<noteq> []" by (simp add: three_months_def)
  have b: "(0::int) < 1" by simp
  have c: "sorted_wrt ts_less (index three_months)"
    by (simp add: three_months_def calendar_defs)
  have d: "\<not> (ts_less (last (index three_months)) (add_months (hd (index three_months)) 1)
          \<and> 1 \<noteq> int (length (rows three_months)))"
    by (simp add: three_months_def calendar_defs)
  have e: "backtest_resample pandas_cov pandas_std three_months (PyInt 1)
       = construct_key_metrics pandas_cov pandas_std
           (three_months\<lparr>rows := take 2 (rows three_months)\<rparr>)"
    by (simp add: backtest_resample_def Let_def py_min_key_def loc_slice_def calendar_defs
          three_months_def)
  from closest_date_selection [OF a b c d, of pandas_cov pandas_std]
  have "\<exists>i < length (index three_months).
         backtest_resample pandas_cov pandas_std three_months (PyInt 1)
           = construct_key_metrics pandas_cov pandas_std
               (three_months\<lparr>rows := take (Suc i) (rows three_months)\<rparr>)"
    by blast
  with a b c d e show ?thesis by blast
qed

subsection \<open>The whole table as its own window\<close>

lemma days_in_month_ge: "28 \<le> days_in_month y m"
  by (simp add: days_in_month_def)

lemma month_start_step:
  assumes "1 \<le> m" "m < 12"
  shows "month_start y (m + 1) = month_start y m + days_in_month y m"
proof -
  from assms have "m = 1 \<or> m = 2 \<or> m = 3 \<or> m = 4 \<or> m = 5 \<or> m = 6 \<or> m = 7 \<or> m = 8
      \<or> m = 9 \<or> m = 10 \<or> m = 11" by arith
  then show ?thesis
    by (elim disjE) (simp_all add: month_start_def days_before_month_def days_in_month_def)
qed

lemma div_step:
  fixes y k :: int
  assumes "0 < k"
  shows "y div k = (y - 1) div k + (if y mod k = 0 then 1 else 0)"
proof (cases "y mod k = 0")
  case True
  then obtain q where q: "y = k * q" by (auto simp: mod_eq_0_iff_dvd)
  have "k * q - 1 = (q - 1) * k + (k - 1)" by (simp add: algebra_simps)
  then have "(k * q - 1) div k = (q - 1) + (k - 1) div k"
    using assms by (metis div_mult_self3 less_irrefl)
  moreover have "(k - 1) div k = 0" using assms by (simp add: div_pos_pos_trivial)
  ultimately have "(k * q - 1) div k = q - 1" by simp
  with True q assms show ?thesis by simp
next
  case False
  have y: "y = k * (y div k) + y mod k" by simp
  have "0 \<le> y mod k" using assms by simp
  with False have lo: "0 < y mod k" by arith
  have hi: "y mod k < k" using assms by simp
  have "y - 1 = (y div k) * k + (y mod k - 1)" using y by (simp add: algebra_simps)
  then have "(y - 1) div k = y div k + (y mod k - 1) div k"
    using assms by (metis div_mult_self3 less_irrefl)
  moreover have "(y mod k - 1) div k = 0" using lo hi by (simp add: div_pos_pos_trivial)
  ultimately show ?thesis using False by simp
qed


lemma year_step:
  "days_before_year (y + 1) = days_before_year y + 365 + (if is_leap y then 1 else 0)"
proof -
  define q4 q100 q400 where "q4 = (y - 1) div 4" and "q100 = (y - 1) div 100"
    and "q400 = (y - 1) div 400"
  define r4 r100 r400 where "r4 = y div 4" and "r100 = y div 100" and "r400 = y div 400"
  define p4 p100 p400 where "p4 \<longleftrightarrow> y mod 4 = 0" and "p100 \<longleftrightarrow> y mod 100 = 0"
    and "p400 \<longleftrightarrow> y mod 400 = 0"
  have d4: "r4 = q4 + (if p4 then 1 else 0)"
    unfolding r4_def q4_def p4_def by (rule div_step) simp
  have d100: "r100 = q100 + (if p100 then 1 else 0)"
    unfolding r100_def q100_def p100_def by (rule div_step) simp
  have d400: "r400 = q400 + (if p400 then 1 else 0)"
    unfolding r400_def q400_def p400_def by (rule div_step) simp
  have a: "p4" if "p100"
  proof -
    from that have "100 dvd y" by (simp add: p100_def mod_eq_0_iff_dvd)
    moreover have "(4::int) dvd 100" by simp
    ultimately have "4 dvd y" by (rule dvd_trans [rotated])
    then show ?thesis by (simp add: p4_def mod_eq_0_iff_dvd)
  qed
  have b: "p100" if "p400"
  proof -
    from that have "400 dvd y" by (simp add: p400_def mod_eq_0_iff_dvd)
    moreover have "(100::int) dvd 400" by simp
    ultimately have "100 dvd y" by (rule dvd_trans [rotated])
    then show ?thesis by (simp add: p100_def mod_eq_0_iff_dvd)
  qed
  have L: "days_before_year (y + 1) = y * 365 + r4 - r100 + r400"
    by (simp add: days_before_year_def r4_def r100_def r400_def)
  have R: "days_before_year y = (y - 1) * 365 + q4 - q100 + q400"
    by (simp add: days_before_year_def q4_def q100_def q400_def)
  have leap: "is_leap y \<longleftrightarrow> p4 \<and> (\<not> p100 \<or> p400)"
    by (simp add: is_leap_def p4_def p100_def p400_def)
  show ?thesis
    unfolding L R leap d4 d100 d400 using a b by (cases p4; cases p100; cases p400) simp_all
qed


lemma month_start_year_step:
  "month_start (y + 1) 1 = month_start y 12 + days_in_month y 12"
  by (simp add: month_start_def year_step days_before_month_def days_in_month_def)

lemma first_day_step:
  "first_day (k + 1) = first_day k + days_in_month (k div 12) (k mod 12 + 1)"
proof -
  define q r where "q = k div 12" and "r = k mod 12"
  have k: "k = 12 * q + r" and r: "0 \<le> r" "r < 12"
    by (simp_all add: q_def r_def)
  show ?thesis
  proof (cases "r < 11")
    case True
    have k1: "k + 1 = 12 * q + (r + 1)" using k by simp
    have r1: "0 \<le> r + 1" "r + 1 < 12" using r True by simp_all
    have e: "(k + 1) div 12 = q" "(k + 1) mod 12 = r + 1"
      using k1 r1 by (rule int_div_pos_eq, rule int_mod_pos_eq)
    have "month_start q (r + 1 + 1) = month_start q (r + 1) + days_in_month q (r + 1)"
      by (rule month_start_step) (use r True in simp_all)
    then show ?thesis
      unfolding first_day_def e q_def [symmetric] r_def [symmetric] .
  next
    case False
    with r have r11: "r = 11" by simp
    have k1: "k + 1 = 12 * (q + 1) + 0" using k r11 by simp
    have z: "(0::int) \<le> 0" "(0::int) < 12" by simp_all
    have e: "(k + 1) div 12 = q + 1" "(k + 1) mod 12 = 0"
      using k1 z by (rule int_div_pos_eq, rule int_mod_pos_eq)
    have "month_start (q + 1) (0 + 1) = month_start q (11 + 1) + days_in_month q (11 + 1)"
      using month_start_year_step [of q] by simp
    then show ?thesis
      unfolding first_day_def e q_def [symmetric] r_def [symmetric] r11 .
  qed
qed

lemma first_day_mono:
  assumes "k \<le> k'"
  shows "first_day k \<le> first_day k'"
  using assms
proof (induction k' rule: int_ge_induct)
  case base
  then show ?case by simp
next
  case (step i)
  have "28 \<le> days_in_month (i div 12) (i mod 12 + 1)" by (rule days_in_month_ge)
  then have "first_day i \<le> first_day (i + 1)"
    unfolding first_day_step [of i] by linarith
  with step.IH show ?case by linarith
qed

lemma month_index_div_mod:
  assumes "1 \<le> month t" "month t \<le> 12"
  shows "month_index t div 12 = year t" and "month_index t mod 12 = month t - 1"
proof -
  have k: "month_index t = 12 * year t + (month t - 1)" by (simp add: month_index_def)
  have r: "0 \<le> month t - 1" "month t - 1 < 12" using assms by simp_all
  show "month_index t div 12 = year t" using k r by (rule int_div_pos_eq)
  show "month_index t mod 12 = month t - 1" using k r by (rule int_mod_pos_eq)
qed

lemma toordinal_first_day:
  assumes "1 \<le> month t" "month t \<le> 12"
  shows "toordinal t = first_day (month_index t) + day t"
  unfolding first_day_def month_index_div_mod [OF assms]
  by (simp add: toordinal_def month_start_def)

lemma month_end_before:
  assumes a: "is_month_end a" and b: "1 \<le> month b" "month b \<le> 12" "1 \<le> day b"
    and lt: "month_index a < month_index b"
  shows "ts_less a b"
proof -
  from a have ma: "1 \<le> month a" "month a \<le> 12"
    and da: "day a = days_in_month (year a) (month a)" by (simp_all add: is_month_end_def)
  have "first_day (month_index a + 1)
      = first_day (month_index a) + days_in_month (year a) (month a)"
    unfolding first_day_step [of "month_index a"] month_index_div_mod [OF ma] by simp
  then have "toordinal a = first_day (month_index a + 1)"
    using toordinal_first_day [OF ma] da by simp
  also have "\<dots> \<le> first_day (month_index b)"
    using lt by (intro first_day_mono) simp
  also have "\<dots> < toordinal b"
    using toordinal_first_day [OF b(1,2)] b(3) by simp
  finally show ?thesis by (simp add: ts_less_def)
qed

lemma add_months_fields:
  assumes "1 \<le> month t" "month t \<le> 12" "0 < n"
  shows "month_index (add_months t n) = month_index t + n"
    and "1 \<le> month (add_months t n)" and "month (add_months t n) \<le> 12"
proof -
  define q r where "q = n div 12" and "r = n mod 12"
  have k: "n = 12 * q + r" and r: "0 \<le> r" "r < 12" by (simp_all add: q_def r_def)
  from assms(3) have s: "sgn n = 1" "\<bar>n\<bar> = n" by simp_all
  have am: "add_months t n =
      \<lparr>year = (if month t + r > 12 then year t + q + 1 else year t + q),
       month = (if month t + r > 12 then month t + r - 12 else month t + r),
       day = min (days_in_month (if month t + r > 12 then year t + q + 1 else year t + q)
                    (if month t + r > 12 then month t + r - 12 else month t + r)) (day t)\<rparr>"
    unfolding add_months_def Let_def s q_def [symmetric] r_def [symmetric]
    using assms(1) r by simp
  show "month_index (add_months t n) = month_index t + n"
    unfolding am using k by (simp add: month_index_def)
  show "1 \<le> month (add_months t n)"
    unfolding am using assms(1,2) r by simp
  show "month (add_months t n) \<le> 12"
    unfolding am using assms(1,2) r by simp
qed

lemma add_months_day:
  "day (add_months t n)
     = min (days_in_month (year (add_months t n)) (month (add_months t n))) (day t)"
  by (simp add: add_months_def Let_def)

lemma consecutive_nth:
  assumes "consecutive_month_ends L" "i < length L"
  shows "is_month_end (L ! i) \<and> month_index (L ! i) = month_index (hd L) + int i"
  using assms
proof (induction L arbitrary: i rule: consecutive_month_ends.induct)
  case 1
  then show ?case by simp
next
  case (2 t)
  then show ?case by simp
next
  case (3 t u ts)
  show ?case
  proof (cases i)
    case 0
    with 3 show ?thesis by simp
  next
    case (Suc j)
    with 3 have "is_month_end ((u # ts) ! j) \<and>
        month_index ((u # ts) ! j) = month_index (hd (u # ts)) + int j" by simp
    with 3 Suc show ?thesis by simp
  qed
qed

lemma consecutive_sorted:
  assumes "consecutive_month_ends L"
  shows "sorted_wrt ts_less L"
  unfolding sorted_wrt_iff_nth_less
proof (intro allI impI)
  fix i j assume ij: "i < j" "j < length L"
  then have i: "i < length L" by simp
  from consecutive_nth [OF assms i] consecutive_nth [OF assms ij(2)] ij(1)
  have a: "is_month_end (L ! i)" and b: "is_month_end (L ! j)"
    and lt: "month_index (L ! i) < month_index (L ! j)" by simp_all
  from b have "1 \<le> month (L ! j)" "month (L ! j) \<le> 12" "1 \<le> day (L ! j)"
    using days_in_month_ge [of "year (L ! j)" "month (L ! j)"]
    by (simp_all add: is_month_end_def)
  with a lt show "ts_less (L ! i) (L ! j)" by (intro month_end_before)
qed

lemma last_before_end:
  assumes ne: "L \<noteq> []" and c: "consecutive_month_ends L"
  shows "ts_less (last L) (add_months (hd L) (int (length L)))"
proof -
  let ?e = "add_months (hd L) (int (length L))"
  have len: "0 < length L" using ne by simp
  from consecutive_nth [OF c len] have h: "is_month_end (hd L)"
    using ne by (simp add: hd_conv_nth)
  then have hm: "1 \<le> month (hd L)" "month (hd L) \<le> 12"
    and hd: "day (hd L) = days_in_month (year (hd L)) (month (hd L))"
    by (simp_all add: is_month_end_def)
  have pos: "0 < int (length L)" using len by simp
  have ei: "month_index ?e = month_index (hd L) + int (length L)"
    and em: "1 \<le> month ?e" "month ?e \<le> 12"
    using add_months_fields [OF hm pos] by simp_all
  have ed: "1 \<le> day ?e"
    using add_months_day [of "hd L" "int (length L)"] hd
      days_in_month_ge [of "year (hd L)" "month (hd L)"]
      days_in_month_ge [of "year ?e" "month ?e"] by simp
  have li: "length L - 1 < length L" using len by simp
  from consecutive_nth [OF c li]
  have l: "is_month_end (last L)"
    and lm: "month_index (last L) = month_index (hd L) + int (length L - 1)"
    using ne by (simp_all add: last_conv_nth)
  have "month_index (last L) < month_index ?e"
    using lm ei len by simp
  with l em ed show ?thesis by (intro month_end_before)
qed


text \<open>
  C4. On a table with at least one row whose labels are the ends of consecutive calendar
  months, the resampler called with the number of rows as duration returns what the
  engine returns on the whole table.
\<close>

theorem full_length_window:
  assumes ne: "rows rs \<noteq> []" and c: "consecutive_month_ends (index rs)"
  shows "backtest_resample cov std rs (PyInt (int (length (rows rs))))
           = construct_key_metrics cov std rs"
proof -
  let ?L = "index rs"
  let ?n = "int (length (rows rs))"
  let ?e = "add_months (hd ?L) ?n"
  let ?key = "\<lambda>x. abs_diff x ?e"
  have len: "length (rows rs) = length ?L" by (simp add: index_def)
  from ne obtain s ds where ix: "?L = s # ds"
    by (cases "rows rs") (auto simp: index_def)
  have Lne: "?L \<noteq> []" using ix by simp
  have hds: "hd ?L = s" using ix by simp
  have sorted: "sorted_wrt ts_less ?L" using c by (rule consecutive_sorted)
  have last_lt: "ts_less (last ?L) ?e"
    using last_before_end [OF Lne c] by (simp add: len)
  obtain cl where cl: "py_min_key ?key ?L = Inr cl"
    using py_min_key_nonempty [OF Lne] by blast
  from py_min_key_first [OF cl] obtain ys zs where L: "?L = ys @ cl # zs"
    and after: "\<forall>z \<in> set zs. ?key cl \<le> ?key z" by blast
  have zs: "zs = []"
  proof (rule ccontr)
    assume "zs \<noteq> []"
    then have lz: "last ?L = last zs" "last zs \<in> set zs" by (simp_all add: L)
    from sorted have "ts_less cl (last zs)"
      unfolding L using lz(2) by (auto simp: sorted_wrt_append)
    moreover have "ts_less (last zs) ?e" using last_lt lz(1) by simp
    ultimately have "?key (last zs) < ?key cl"
      by (simp add: abs_diff_def ts_less_def)
    with after lz(2) show False by fastforce
  qed
  have "filter (\<lambda>x. ts_le (hd (ys @ cl # zs)) (fst x) \<and> ts_le (fst x) cl) (rows rs)
          = take (Suc (length ys)) (rows rs)"
    by (rule slice_prefix) (use L sorted in \<open>simp_all add: index_def\<close>)
  moreover have "length (rows rs) = Suc (length ys)"
    using L zs len by simp
  ultimately have "filter (\<lambda>x. ts_le s (fst x) \<and> ts_le (fst x) cl) (rows rs) = rows rs"
    using L hds by simp
  then have slice: "loc_slice rs s cl = rs" by (simp add: loc_slice_def)
  have pos: "0 < ?n" using ne by simp
  show ?thesis
    using pos ix cl slice len unfolding hds
    by (auto simp: backtest_resample_def Let_def)
qed


theorem full_length_window_witness:
  "rows three_months \<noteq> [] \<and> consecutive_month_ends (index three_months)
   \<and> backtest_resample pandas_cov pandas_std three_months (PyInt 3)
       = construct_key_metrics pandas_cov pandas_std three_months"
proof -
  have a: "rows three_months \<noteq> []" by (simp add: three_months_def)
  have b: "consecutive_month_ends (index three_months)"
    by (simp add: three_months_index is_month_end_def month_index_def days_in_month_def
          is_leap_def)
  have n: "int (length (rows three_months)) = 3" by (simp add: three_months_def)
  show ?thesis
    using a b full_length_window [OF a b, of pandas_cov pandas_std] unfolding n by simp
qed


section \<open>Properties of the risk metrics\<close>

text \<open>
  C6. When a reduction fails, \<^verbatim>\<open>construct_key_metrics\<close> raises its error with a
  message that is meant to report the shape of the table. The message is a plain string
  literal, not a formatted one: it ends with the text \<^verbatim>\<open>{returns.shape}\<close> itself,
  and is the same for tables of different shapes.
\<close>

theorem computation_error_message_literal:
  "construct_key_metrics (\<lambda>_. None) pandas_std one_row
     = Inl (ComputationError
         ''Error calculating covariance matrix. Returns matrix of shape: {returns.shape}'')
   \<and> construct_key_metrics (\<lambda>_. None) pandas_std wide_row
       = construct_key_metrics (\<lambda>_. None) pandas_std one_row
   \<and> construct_key_metrics pandas_cov (\<lambda>_. None) one_row
       = Inl (ComputationError
           ''Error calculating volatilities. Returns matrix of shape: {returns.shape}'')
   \<and> shape one_row = (1, 1) \<and> shape wide_row = (1, 2)"
  by (simp add: construct_key_metrics_def cov_error_message_def std_error_message_def
        pandas_cov_def shape_def one_row_def wide_row_def)

text \<open>
  C9. The claim that every volatility is a non-negative real, also for a table with a
  single row, fails: with one observation the divisor \<open>N - 1\<close> is zero and the
  volatility is NaN.
\<close>

theorem single_row_volatility_nan:
  "construct_key_metrics pandas_cov pandas_std one_row
     = Inr \<lparr>returns = one_row, volatilities = [(''A'', NaN)], covariance = [[NaN]]\<rparr>"
  by (simp add: construct_key_metrics_def pandas_cov_def pandas_std_def one_row_def
        column_cells_def std_col_def cov_cols_def has_inf_def finite_vals_def Let_def)

lemma finite_vals_all_fin:
  "list_all is_fin cs \<Longrightarrow> length (finite_vals cs) = length cs \<and> \<not> has_inf cs"
proof (induction cs)
  case Nil
  then show ?case by (simp add: finite_vals_def has_inf_def)
next
  case (Cons c cs)
  then show ?case by (cases c) (auto simp: finite_vals_def has_inf_def)
qed

lemma column_cells_all_fin:
  assumes "numeric_table f" "j < length (columns f)"
  shows "list_all is_fin (column_cells f j)"
  using assms
  by (auto simp: numeric_table_def column_cells_def list_all_iff)

lemma sum_sq_nonneg: "0 \<le> sum_list (map (\<lambda>x. (x - m)\<^sup>2) (xs::real list))"
  by (induction xs) simp_all

lemma sample_std_nonneg: "0 \<le> sample_std xs"
  unfolding sample_std_def
  by (intro real_sqrt_ge_zero divide_nonneg_nonneg sum_sq_nonneg) simp

text \<open>
  C9, amended. On a table with at least two rows whose cells are all finite numbers,
  the engine returns one volatility per column, in column order; each is the sample
  standard deviation (divisor \<open>N - 1\<close>) of all the rows of its column, a non-negative
  real.
\<close>

theorem volatilities_nonneg:
  assumes "numeric_table f" and "2 \<le> length (rows f)"
    and "construct_key_metrics pandas_cov pandas_std f = Inr m"
  shows "length (volatilities m) = length (columns f)
       \<and> (\<forall>j < length (columns f).
             volatilities m ! j
               = (columns f ! j, Fin (sample_std (finite_vals (column_cells f j))))
             \<and> length (finite_vals (column_cells f j)) = length (rows f)
             \<and> 0 \<le> sample_std (finite_vals (column_cells f j)))"
proof -
  have vols: "volatilities m
      = map (\<lambda>j. (columns f ! j, std_col (column_cells f j))) [0..<length (columns f)]"
    using assms(3)
    by (auto simp: construct_key_metrics_def pandas_cov_def pandas_std_def)
  have col: "std_col (column_cells f j) = Fin (sample_std (finite_vals (column_cells f j)))
             \<and> length (finite_vals (column_cells f j)) = length (rows f)"
    if "j < length (columns f)" for j
  proof -
    have "list_all is_fin (column_cells f j)"
      using assms(1) that by (rule column_cells_all_fin)
    then have "length (finite_vals (column_cells f j)) = length (column_cells f j)"
      and "\<not> has_inf (column_cells f j)"
      using finite_vals_all_fin by blast+
    moreover have "length (column_cells f j) = length (rows f)"
      by (simp add: column_cells_def)
    ultimately show ?thesis
      using assms(2) by (simp add: std_col_def Let_def)
  qed
  show ?thesis
    using col by (simp add: vols sample_std_nonneg)
qed

theorem volatilities_nonneg_witness:
  "numeric_table two_months \<and> 2 \<le> length (rows two_months)
   \<and> (\<exists>m. construct_key_metrics pandas_cov pandas_std two_months = Inr m
        \<and> length (volatilities m) = 1
        \<and> fst (volatilities m ! 0) = ''A''
        \<and> 0 \<le> sample_std (finite_vals (column_cells two_months 0)))"
proof -
  have a: "numeric_table two_months" by (simp add: numeric_table_def two_months_def)
  have b: "2 \<le> length (rows two_months)" by (simp add: two_months_def)
  obtain m where c: "construct_key_metrics pandas_cov pandas_std two_months = Inr m"
    by (simp add: construct_key_metrics_def pandas_cov_def pandas_std_def)
  have d: "columns two_months = [''A'']" by (simp add: two_months_def)
  show ?thesis
    using a b c volatilities_nonneg [OF a b c] by (simp add: d)
qed

section \<open>Properties of the configuration checks\<close>


lemmas strptime_defs =
  strptime_ymd_def field_value_def is_digit_def is_nonzero_digit_def days_in_month_def
  is_leap_def accepted_interval_values_def Let_def



lemma strptime_ymd_examples:
  "strptime_ymd ''2024-1-5'' = Some \<lparr>year = 2024, month = 1, day = 5\<rparr>"
  "strptime_ymd ''2024-02-30'' = None"
  by (simp_all add: strptime_defs)

lemma validate_data_params_not_a_string:
  "validate_data_params [(''sample_period_end'', JNumber 20240101)] = Inl TypeError"
  by (simp add: validate_data_params_def)

section \<open>Properties of the availability check\<close>

lemma bad_etfs_fold:
  "n \<le> length ts \<Longrightarrow>
   fold (\<lambda>i acc. if map f ts ! i \<noteq> s then acc @ [ts ! i] else acc) [0..<n] []
     = filter (\<lambda>t. f t \<noteq> s) (take n ts)"
proof (induction n)
  case 0
  then show ?case by simp
next
  case (Suc n)
  then have n: "n < length ts" by simp
  then have tk: "take (Suc n) ts = take n ts @ [ts ! n]"
    by (simp add: take_Suc_conv_app_nth)
  have IH: "fold (\<lambda>i acc. if map f ts ! i \<noteq> s then acc @ [ts ! i] else acc) [0..<n] []
     = filter (\<lambda>t. f t \<noteq> s) (take n ts)"
    using Suc by simp
  show ?case
    unfolding tk upt_Suc_append [OF le0] fold_append comp_def IH
    using n by simp
qed

lemma bad_etfs_filter:
  "bad_etfs ts (map f ts) s = filter (\<lambda>t. f t \<noteq> s) ts"
  using bad_etfs_fold [of "length ts" ts f s] by (simp add: bad_etfs_def)

lemma fold_max_Max: "fold max ys (y::int) = Max (set (y # ys))"
  by (rule Max.set_eq_fold [symmetric])

lemma fold_min_Min: "fold min ys (y::int) = Min (set (y # ys))"
  by (rule Min.set_eq_fold [symmetric])

lemma Max_eq_Min_card:
  fixes S :: "int set"
  assumes "finite S" "S \<noteq> {}"
  shows "Max S = Min S \<longleftrightarrow> card S = 1"
proof
  assume eq: "Max S = Min S"
  have "x = Max S" if "x \<in> S" for x
  proof -
    from that assms have "Min S \<le> x" "x \<le> Max S" by simp_all
    with eq show ?thesis by simp
  qed
  moreover have "Max S \<in> S" using assms by simp
  ultimately have "S = {Max S}" by blast
  then have "card S = card {Max S}" by simp
  then show "card S = 1" by simp
next
  assume "card S = 1"
  then obtain a where "S = {a}" by (auto simp: card_1_singleton_iff)
  then show "Max S = Min S" by simp
qed

text \<open>
  C1. For a non-empty list of tickers: when the earliest years take more than one value
  and their maximum is not the requested start year, the check fails with
  \<open>DataUnavailable\<close> naming, in ticker order, exactly the tickers whose earliest year
  is not the requested start year; when all earliest years are equal, or their maximum is
  the requested start year, the check passes.
\<close>

theorem check_start_years_spec:
  assumes "tickers \<noteq> []"
  shows "(1 < card (fetch ` set tickers) \<and> Max (fetch ` set tickers) \<noteq> start_year
            \<longrightarrow> check_start_years fetch tickers start_year
                  = Inl (DataUnavailable (filter (\<lambda>t. fetch t \<noteq> start_year) tickers)))
       \<and> (card (fetch ` set tickers) = 1 \<or> Max (fetch ` set tickers) = start_year
            \<longrightarrow> check_start_years fetch tickers start_year = Inr ())"
proof -
  let ?S = "fetch ` set tickers"
  from assms obtain t ts where ts: "tickers = t # ts" by (cases tickers) auto
  have fin: "finite ?S" and ne: "?S \<noteq> {}" using assms by auto
  have S: "set (fetch t # map fetch ts) = ?S" by (simp add: ts)
  have mx: "fold max (map fetch ts) (fetch t) = Max ?S"
    unfolding fold_max_Max S ..
  have mn: "fold min (map fetch ts) (fetch t) = Min ?S"
    unfolding fold_min_Min S ..
  have card: "Max ?S = Min ?S \<longleftrightarrow> card ?S = 1"
    using Max_eq_Min_card [OF fin ne] .
  have pos: "0 < card ?S" using fin ne by (simp add: card_gt_0_iff)
  have unfold: "check_start_years fetch tickers start_year =
      (if Max ?S \<noteq> Min ?S \<and> Max ?S \<noteq> start_year
       then Inl (DataUnavailable (filter (\<lambda>t. fetch t \<noteq> start_year) tickers))
       else Inr ())"
    using mx mn bad_etfs_filter [of tickers fetch start_year]
    by (simp add: check_start_years_def ts)
  show ?thesis
    unfolding unfold using card pos by auto
qed

theorem check_start_years_spec_witness:
  "[''A'', ''B'', ''C''] \<noteq> []
   \<and> check_start_years late_starter [''A'', ''B'', ''C''] 2019
       = Inl (DataUnavailable [''B'', ''C''])
   \<and> check_start_years late_starter [''A'', ''B'', ''C''] 2020 = Inr ()
   \<and> check_start_years (\<lambda>t. 2021) [''A'', ''B'', ''C''] 2020 = Inr ()"
  using check_start_years_spec [of "[''A'', ''B'', ''C'']" late_starter 2019]
    check_start_years_spec [of "[''A'', ''B'', ''C'']" late_starter 2020]
    check_start_years_spec [of "[''A'', ''B'', ''C'']" "\<lambda>t. 2021" 2020]
  by (simp add: card_insert_if late_starter_def)

lemma check_start_years_no_tickers:
  "check_start_years fetch [] start_year = Inl EmptySequence"
  by (simp add: check_start_years_def)

section \<open>Properties of the returns table\<close>

lemma fdiv_NaN [simp]: "fdiv c NaN = NaN"
  by (cases c) simp_all







end
